theory Spec2Isabelle
  imports Main "HOL-Library.Char_ord" "HOL-Library.List_Lexorder" "HOL-Library.Sublist"
begin

section \<open>The JavaScript primitives the handlers of server.js use\<close>

text \<open>
  A JavaScript string is a HOL \<open>string\<close>. Only ASCII is told apart: the Unicode white
  space beyond ASCII that \<^verbatim>\<open>parseInt\<close> also strips has no counterpart here.

  A number is \<open>NaN\<close> or an integer, kept exact. JavaScript rounds integers above
  \<open>2^53\<close> and reads very long digit strings as \<open>Infinity\<close>; both stay far above the
  length of any array, so the comparisons with \<^verbatim>\<open>dates.length\<close> and the clamping in
  \<^verbatim>\<open>slice\<close> come out the same on the exact value.
\<close>

datatype js_number = NaN | Finite int

datatype js_value = JSString string | JSNumber js_number

text \<open>\<^verbatim>\<open>defaultValue(value, fallback)\<close> of the default-value package: the fallback
  when the value is null or undefined (here \<open>None\<close>).\<close>

definition defaultValue :: "'a option \<Rightarrow> 'a \<Rightarrow> 'a" where
  "defaultValue v fallback = (case v of None \<Rightarrow> fallback | Some x \<Rightarrow> x)"

definition is_js_whitespace :: "char \<Rightarrow> bool" where
  "is_js_whitespace c = (of_char c \<in> {9, 10, 11, 12, 13, 32 :: nat})"

definition digit_value :: "char \<Rightarrow> nat option" where
  "digit_value c =
     (let n = (of_char c :: nat) in
      if 48 \<le> n \<and> n \<le> 57 then Some (n - 48)
      else if 97 \<le> n \<and> n \<le> 122 then Some (n - 87)
      else if 65 \<le> n \<and> n \<le> 90 then Some (n - 55)
      else None)"

definition radix_digit :: "nat \<Rightarrow> char \<Rightarrow> bool" where
  "radix_digit R c = (case digit_value c of None \<Rightarrow> False | Some d \<Rightarrow> d < R)"

definition radix_value :: "nat \<Rightarrow> string \<Rightarrow> nat" where
  "radix_value R z =
     foldl (\<lambda>acc c. acc * R + (case digit_value c of None \<Rightarrow> 0 | Some d \<Rightarrow> d)) 0 z"

text \<open>\<^verbatim>\<open>parseInt(string)\<close> with no radix argument (ECMAScript, parseInt): leading white
  space is dropped, then an optional sign, then an optional \<^verbatim>\<open>0x\<close> that switches to
  radix 16; the longest run of digits of the radix is the value, and no digit at all
  gives \<open>NaN\<close>.\<close>

definition parseInt_string :: "string \<Rightarrow> js_number" where
  "parseInt_string input =
     (let s1 = dropWhile is_js_whitespace input;
          (sign, s2) =
            (case s1 of
               [] \<Rightarrow> (1 :: int, s1)
             | c # r \<Rightarrow>
                 if c = CHR ''-'' then (- 1, r)
                 else if c = CHR ''+'' then (1, r)
                 else (1, s1));
          (R, s3) =
            (case s2 of
               a # b # r \<Rightarrow>
                 if a = CHR ''0'' \<and> (b = CHR ''x'' \<or> b = CHR ''X'') then (16 :: nat, r)
                 else (10, s2)
             | _ \<Rightarrow> (10, s2));
          z = takeWhile (radix_digit R) s3
      in if z = [] then NaN else Finite (sign * int (radix_value R z)))"

text \<open>Number-to-string conversion of an integer: its decimal digits, with a minus sign
  when negative. (JavaScript switches to exponent notation from \<open>10^21\<close> on; the handlers
  only convert the literals 1 and 3.)\<close>

fun decimal_digits :: "nat \<Rightarrow> string" where
  "decimal_digits n =
     (if n < 10 then [char_of (48 + n)]
      else decimal_digits (n div 10) @ [char_of (48 + n mod 10)])"

declare decimal_digits.simps [simp del]

definition ToString :: "js_number \<Rightarrow> string" where
  "ToString x =
     (case x of
        NaN \<Rightarrow> ''NaN''
      | Finite n \<Rightarrow> if n < 0 then CHR ''-'' # decimal_digits (nat (- n)) else decimal_digits (nat n))"

text \<open>\<^verbatim>\<open>parseInt\<close> converts its argument to a string first.\<close>

definition parseInt :: "js_value \<Rightarrow> js_number" where
  "parseInt v = (case v of JSString s \<Rightarrow> parseInt_string s | JSNumber x \<Rightarrow> parseInt_string (ToString x))"

text \<open>Arithmetic and comparison with \<open>NaN\<close>: every comparison with \<open>NaN\<close> is false.\<close>

definition js_add :: "js_number \<Rightarrow> int \<Rightarrow> js_number" where
  "js_add x k = (case x of NaN \<Rightarrow> NaN | Finite n \<Rightarrow> Finite (n + k))"

definition js_less :: "js_number \<Rightarrow> js_number \<Rightarrow> bool" where
  "js_less x y = (case (x, y) of (Finite a, Finite b) \<Rightarrow> a < b | _ \<Rightarrow> False)"

text \<open>\<^verbatim>\<open>xs[i]\<close>: \<open>None\<close> is \<^verbatim>\<open>undefined\<close>, the value of every index that is not an
  element's.\<close>

definition js_index :: "'a list \<Rightarrow> js_number \<Rightarrow> 'a option" where
  "js_index xs i =
     (case i of
        NaN \<Rightarrow> None
      | Finite n \<Rightarrow> if 0 \<le> n \<and> n < int (length xs) then Some (xs ! nat n) else None)"

definition ToIntegerOrInfinity :: "js_number \<Rightarrow> int" where
  "ToIntegerOrInfinity x = (case x of NaN \<Rightarrow> 0 | Finite n \<Rightarrow> n)"

text \<open>\<^verbatim>\<open>Array.prototype.slice(start, end)\<close>: both bounds are made integers, a negative
  bound counts from the end, and both are clamped to the array.\<close>

definition slice :: "'a list \<Rightarrow> js_number \<Rightarrow> js_number \<Rightarrow> 'a list" where
  "slice xs start fin =
     (let len = int (length xs);
          relativeStart = ToIntegerOrInfinity start;
          k = (if relativeStart < 0 then max (len + relativeStart) 0 else min relativeStart len);
          relativeEnd = ToIntegerOrInfinity fin;
          final = (if relativeEnd < 0 then max (len + relativeEnd) 0 else min relativeEnd len)
      in take (nat (final - k)) (drop (nat k) xs))"

text \<open>\<^verbatim>\<open>/^[0-9]+$/.test(s)\<close>, the test the older \<^verbatim>\<open>/:page?\<close> handler applies to its
  parameter: a non-empty string of decimal digits.\<close>

definition is_decimal :: "string \<Rightarrow> bool" where
  "is_decimal s = (s \<noteq> [] \<and> list_all (radix_digit 10) s)"

text \<open>The conversion of a string to a number that \<^verbatim>\<open>slice\<close> applies to a string bound
  (ECMAScript, StringToNumber). Only strings of decimal digits are modelled: the other
  numeric literals (fractions, exponents, \<^verbatim>\<open>Infinity\<close>) are rounded as floating-point
  numbers. \<open>None\<close> stands for a string outside the modelled fragment.\<close>

definition StringToNumber :: "string \<Rightarrow> js_number option" where
  "StringToNumber s = (if is_decimal s then Some (Finite (int (radix_value 10 s))) else None)"

definition ToNumber :: "js_value \<Rightarrow> js_number option" where
  "ToNumber v = (case v of JSNumber x \<Rightarrow> Some x | JSString s \<Rightarrow> StringToNumber s)"

section \<open>Data of the gallery\<close>

text \<open>A picture as the handlers read it: \<^verbatim>\<open>picture.date.date\<close> is the name of the date
  folder, \<^verbatim>\<open>picture.date.momentDate\<close> its parsed date (an instant, as a moment
  object's value), \<^verbatim>\<open>picture.filename\<close> the file's name.\<close>

record date_folder =
  folder_date :: string
  momentDate :: int

record picture =
  date :: date_folder
  filename :: string

record photo = picture +
  previous :: "picture option"
  "next" :: "picture option"

type_synonym page = "(date_folder \<times> picture list) list"

type_synonym stream = string

datatype error_constructor = ValidationError | ThumbnailError | Error

record js_error =
  constructor :: error_constructor
  message :: string

section \<open>What the handlers call\<close>

text \<open>
  The modules under \<^verbatim>\<open>./lib\<close> and \<^verbatim>\<open>config.json\<close> are what server.js requires; a
  handler is modelled over their results on the request at hand. A validator returns
  \<open>None\<close> when it returns, and \<open>Some e\<close> when it throws \<open>e\<close>. A promise of the photo manager
  or of the thumbnailer is \<open>Inr\<close> its value when it resolves and \<open>Inl\<close> its error when it
  rejects.
\<close>

record deps =
  validateNumber :: "string \<Rightarrow> js_error option"
  validateDateFolderName :: "string \<Rightarrow> js_error option"
  validatePhotoFilename :: "string \<Rightarrow> js_error option"
  getPictures :: "js_error + picture list"
  getPaginatedDatesWithPictures :: "js_error + page list"
  getPicture :: "string \<Rightarrow> string \<Rightarrow> js_error + photo option"
  thumbnailer :: "string \<Rightarrow> string \<Rightarrow> js_error + stream"
  momentFormat :: "int \<Rightarrow> string"
  pathPrefix :: string

text \<open>Every call into the photo manager or the thumbnailer is recorded, in order: these
  are the only places where a handler reaches the photo folder or the thumbnail store.
  A parameter of a request is a string, or absent (\<open>None\<close>). The static middlewares
  mounted before the router and the \<^verbatim>\<open>/mediaWikiAuth\<close> handler are not modelled.\<close>

datatype access =
    GetPictures
  | GetPaginatedDatesWithPictures
  | GetPicture string string
  | Thumbnailer string string

datatype body =
    Send string
  | Json "(string \<times> string) list list"
  | RenderIndex "(date_folder \<times> picture list) list option" js_number nat
  | RenderView photo "picture option" "picture option" string
  | Pipe stream

text \<open>What a request ends in: a response with its status, or \<^verbatim>\<open>errorHandler.report\<close>
  of the unhandled-error package.\<close>

datatype outcome = Response nat body | Reported js_error

definition not_found :: outcome where
  "not_found = Response 404 (Send ''404 not found'')"

text \<open>The error-handling middleware (\<^verbatim>\<open>app.use((err, req, res, next) => ...)\<close>): the
  router passes it the error of a rejected handler promise.\<close>

definition error_middleware :: "js_error \<Rightarrow> outcome" where
  "error_middleware err =
     (if constructor err = ValidationError then not_found
      else if constructor err = ThumbnailError then
        Response 500 (Send ''Failed to generate thumbnail - not an image file?'')
      else Reported err)"

section \<open>The handlers\<close>

subsection \<open>\<^verbatim>\<open>router.get("/latest")\<close>\<close>

definition latest_try :: "deps \<Rightarrow> string option \<Rightarrow> (js_error + picture list) \<times> access list" where
  "latest_try d amount =
     (case amount of
        None \<Rightarrow> (getPictures d, [GetPictures])
      | Some a \<Rightarrow>
          (case validateNumber d a of
             Some e \<Rightarrow> (Inl e, [])
           | None \<Rightarrow> (getPictures d, [GetPictures])))"

definition latest_selected :: "string option \<Rightarrow> picture list \<Rightarrow> picture list" where
  "latest_selected amount pictures =
     slice pictures (Finite 0)
       (parseInt (defaultValue (map_option JSString amount) (JSNumber (Finite 3))))"

definition latest_entry :: "deps \<Rightarrow> picture \<Rightarrow> (string \<times> string) list" where
  "latest_entry d p =
     [(''date'', momentFormat d (momentDate (date p))),
      (''filename'', filename p),
      (''url'', pathPrefix d @ ''/view/'' @ folder_date (date p) @ ''/'' @ filename p),
      (''thumbnail'', pathPrefix d @ ''/thumbnails/'' @ folder_date (date p) @ ''/'' @ filename p)]"

definition latest_then :: "deps \<Rightarrow> string option \<Rightarrow> picture list \<Rightarrow> outcome" where
  "latest_then d amount pictures =
     Response 200 (Json (map (latest_entry d) (latest_selected amount pictures)))"

definition latest_route :: "deps \<Rightarrow> string option \<Rightarrow> outcome \<times> access list" where
  "latest_route d amount =
     (case latest_try d amount of
        (Inl e, tr) \<Rightarrow> (error_middleware e, tr)
      | (Inr pictures, tr) \<Rightarrow> (latest_then d amount pictures, tr))"

subsection \<open>\<^verbatim>\<open>router.get("/:page?")\<close>\<close>

definition index_try :: "deps \<Rightarrow> string option \<Rightarrow> (js_error + page list) \<times> access list" where
  "index_try d pageParam =
     (case pageParam of
        None \<Rightarrow> (getPaginatedDatesWithPictures d, [GetPaginatedDatesWithPictures])
      | Some p \<Rightarrow>
          (case validateNumber d p of
             Some e \<Rightarrow> (Inl e, [])
           | None \<Rightarrow> (getPaginatedDatesWithPictures d, [GetPaginatedDatesWithPictures])))"

definition index_then :: "string option \<Rightarrow> page list \<Rightarrow> outcome" where
  "index_then pageParam dates =
     (let pageNumber =
            js_add (parseInt (defaultValue (map_option JSString pageParam) (JSNumber (Finite 1)))) (- 1)
      in if js_less pageNumber (Finite 0) \<or> js_less (Finite (int (length dates) - 1)) pageNumber
         then not_found
         else Response 200
                (RenderIndex (js_index dates pageNumber) (js_add pageNumber 1) (length dates)))"

definition index_route :: "deps \<Rightarrow> string option \<Rightarrow> outcome \<times> access list" where
  "index_route d pageParam =
     (case index_try d pageParam of
        (Inl e, tr) \<Rightarrow> (error_middleware e, tr)
      | (Inr dates, tr) \<Rightarrow> (index_then pageParam dates, tr))"

subsection \<open>\<^verbatim>\<open>router.get("/view/:date/:filename")\<close>\<close>

record request =
  protocol :: string
  host :: string

definition view_try :: "deps \<Rightarrow> string \<Rightarrow> string \<Rightarrow> (js_error + photo option) \<times> access list" where
  "view_try d dateParam filenameParam =
     (case validateDateFolderName d dateParam of
        Some e \<Rightarrow> (Inl e, [])
      | None \<Rightarrow>
          (case validatePhotoFilename d filenameParam of
             Some e \<Rightarrow> (Inl e, [])
           | None \<Rightarrow> (getPicture d dateParam filenameParam, [GetPicture dateParam filenameParam])))"

definition view_then :: "deps \<Rightarrow> request \<Rightarrow> photo option \<Rightarrow> outcome" where
  "view_then d req result =
     (case result of
        None \<Rightarrow> not_found
      | Some ph \<Rightarrow>
          Response 200
            (RenderView ph (previous ph) (next ph)
               (protocol req @ ''://'' @ host req @ pathPrefix d @ ''/thumbnails/''
                  @ folder_date (date ph) @ ''/'' @ filename ph)))"

definition view_route :: "deps \<Rightarrow> request \<Rightarrow> string \<Rightarrow> string \<Rightarrow> outcome \<times> access list" where
  "view_route d req dateParam filenameParam =
     (case view_try d dateParam filenameParam of
        (Inl e, tr) \<Rightarrow> (error_middleware e, tr)
      | (Inr result, tr) \<Rightarrow> (view_then d req result, tr))"

subsection \<open>\<^verbatim>\<open>router.get("/thumbnails/:date/:filename")\<close>\<close>

definition thumbnails_try :: "deps \<Rightarrow> string \<Rightarrow> string \<Rightarrow> (js_error + stream) \<times> access list" where
  "thumbnails_try d dateParam filenameParam =
     (case validateDateFolderName d dateParam of
        Some e \<Rightarrow> (Inl e, [])
      | None \<Rightarrow>
          (case validatePhotoFilename d filenameParam of
             Some e \<Rightarrow> (Inl e, [])
           | None \<Rightarrow> (thumbnailer d dateParam filenameParam, [Thumbnailer dateParam filenameParam])))"

text \<open>\<^verbatim>\<open>/Unable to open file/.test(err.message)\<close>: the text occurs in the message.\<close>

definition unable_to_open_file :: "string \<Rightarrow> bool" where
  "unable_to_open_file msg = sublist ''Unable to open file'' msg"

text \<open>The handler's own \<^verbatim>\<open>catch\<close> answers the errors whose message has that text; it
  throws every other error again, to the middleware.\<close>

definition thumbnails_route :: "deps \<Rightarrow> string \<Rightarrow> string \<Rightarrow> outcome \<times> access list" where
  "thumbnails_route d dateParam filenameParam =
     (case thumbnails_try d dateParam filenameParam of
        (Inr s, tr) \<Rightarrow> (Response 200 (Pipe s), tr)
      | (Inl err, tr) \<Rightarrow>
          (if unable_to_open_file (message err) then not_found else error_middleware err, tr))"

subsection \<open>The older \<^verbatim>\<open>router.get("/latest")\<close>\<close>

text \<open>The second version of server.js in the sources validates nothing here and hands
  the raw parameter to \<^verbatim>\<open>slice\<close>, which converts it to a number. \<open>None\<close> is a parameter
  outside the modelled fragment of that conversion.\<close>

definition latest_selected_old :: "string option \<Rightarrow> picture list \<Rightarrow> picture list option" where
  "latest_selected_old amount pictures =
     map_option (slice pictures (Finite 0))
       (ToNumber (defaultValue (map_option JSString amount) (JSNumber (Finite 3))))"

definition latest_entry_old :: "deps \<Rightarrow> picture \<Rightarrow> (string \<times> string) list" where
  "latest_entry_old d p =
     [(''date'', momentFormat d (momentDate (date p))),
      (''filename'', filename p),
      (''url'', ''/photos/'' @ folder_date (date p) @ ''/'' @ filename p),
      (''thumbnail'', ''/thumbnails/'' @ folder_date (date p) @ ''/'' @ filename p)]"

definition error_middleware_old :: "js_error \<Rightarrow> outcome" where
  "error_middleware_old err =
     (if constructor err = ValidationError then not_found else Reported err)"

definition latest_route_old :: "deps \<Rightarrow> string option \<Rightarrow> outcome option \<times> access list" where
  "latest_route_old d amount =
     (case getPictures d of
        Inl e \<Rightarrow> (Some (error_middleware_old e), [GetPictures])
      | Inr pictures \<Rightarrow>
          (map_option (\<lambda>sel. Response 200 (Json (map (latest_entry_old d) sel)))
             (latest_selected_old amount pictures),
           [GetPictures]))"

section \<open>The modules that are not in the sources\<close>

text \<open>Modelled from the spec: \<^verbatim>\<open>lib/validate/number\<close> is not in the sources. The spec
  has a numeric parameter be a non-negative integer, and has a non-numeric or negative
  input fail with a ValidationError; the older \<^verbatim>\<open>/:page?\<close> handler of the sources makes
  the same check in line, with \<^verbatim>\<open>/^[0-9]+$/\<close>. The text of the error is not given and
  is the first argument.\<close>

definition spec_validateNumber :: "string \<Rightarrow> string \<Rightarrow> js_error option" where
  "spec_validateNumber msg s =
     (if is_decimal s then None else Some \<lparr>constructor = ValidationError, message = msg\<rparr>)"

text \<open>Modelled from the spec: \<^verbatim>\<open>lib/validate/photo-filename\<close> is not in the sources. The
  spec has the filename match the permitted character set and rejects path separators
  and traversal sequences such as \<^verbatim>\<open>..\<close> with a ValidationError. The permitted set and
  the text of the error are not given and are arguments.\<close>

definition spec_validatePhotoFilename :: "(char \<Rightarrow> bool) \<Rightarrow> string \<Rightarrow> string \<Rightarrow> js_error option" where
  "spec_validatePhotoFilename permitted msg f =
     (if list_all permitted f \<and> CHR ''/'' \<notin> set f \<and> CHR 0x5C \<notin> set f \<and> \<not> sublist ''..'' f
      then None
      else Some \<lparr>constructor = ValidationError, message = msg\<rparr>)"

text \<open>Modelled from the spec: \<^verbatim>\<open>lib/photo-manager\<close> is not in the sources. The scanner's
  listing gives every date folder of the photo root with the image file names in it.
  The catalog keeps the folders with at least one photo, orders them by date with the
  most recent first (page 1 is the most recent page), orders the photos of a folder by
  file name, and groups the folders consecutively into pages of the pagination
  threshold. The spec does not say what a threshold of 0 gives; here it gives no page.\<close>

type_synonym listing = "(date_folder \<times> string list) list"

definition spec_datesWithPictures :: "listing \<Rightarrow> (date_folder \<times> picture list) list" where
  "spec_datesWithPictures l =
     map (\<lambda>(folder, names). (folder, map (\<lambda>n. \<lparr>date = folder, filename = n\<rparr>) (sort names)))
       (rev (sort_key (\<lambda>e. momentDate (fst e)) (filter (\<lambda>e. snd e \<noteq> []) l)))"

function chunk :: "nat \<Rightarrow> 'a list \<Rightarrow> 'a list list" where
  "chunk n xs = (if n = 0 \<or> xs = [] then [] else take n xs # chunk n (drop n xs))"
  by pat_completeness auto
termination
  by (relation "measure (\<lambda>(n, xs). length xs)") auto

declare chunk.simps [simp del]

definition spec_getPaginatedDatesWithPictures :: "nat \<Rightarrow> listing \<Rightarrow> page list" where
  "spec_getPaginatedDatesWithPictures threshold l = chunk threshold (spec_datesWithPictures l)"

text \<open>Modelled from the spec: the total chronological order of the photos, by date
  folder first and by file name within a folder, and the recent photos, which are the
  same photos with the most recent first.\<close>

definition spec_chronological :: "listing \<Rightarrow> picture list" where
  "spec_chronological l =
     concat (map (\<lambda>(folder, names). map (\<lambda>n. \<lparr>date = folder, filename = n\<rparr>) (sort names))
               (sort_key (\<lambda>e. momentDate (fst e)) l))"

definition chronologically_before :: "picture \<Rightarrow> picture \<Rightarrow> bool" where
  "chronologically_before a b =
     (momentDate (date a) < momentDate (date b) \<or> date a = date b \<and> filename a < filename b)"

definition spec_getPictures :: "listing \<Rightarrow> picture list" where
  "spec_getPictures l = rev (spec_chronological l)"

text \<open>Modelled from the spec: the photo is looked up in that order; when it is found, its
  \<open>previous\<close> and \<open>next\<close> are the photos right before and right after it, absent at the
  two ends of the whole collection; when it is not found the result is absent.\<close>

fun with_neighbours :: "picture option \<Rightarrow> picture list \<Rightarrow> (picture \<Rightarrow> bool) \<Rightarrow> photo option" where
  "with_neighbours prev [] wanted = None"
| "with_neighbours prev (p # ps) wanted =
     (if wanted p then
        Some \<lparr>date = date p, filename = filename p, previous = prev,
              next = (case ps of [] \<Rightarrow> None | q # _ \<Rightarrow> Some q)\<rparr>
      else with_neighbours (Some p) ps wanted)"

definition spec_getPicture :: "listing \<Rightarrow> string \<Rightarrow> string \<Rightarrow> photo option" where
  "spec_getPicture l dateKey name =
     with_neighbours None (spec_chronological l)
       (\<lambda>p. folder_date (date p) = dateKey \<and> filename p = name)"

text \<open>Modelled from the spec: \<^verbatim>\<open>lib/validate/date-folder\<close> is not in the sources. The
  spec has the date key be a fixed-length calendar-date string and gives
  \<^verbatim>\<open>YYYY-MM-DD\<close> as its format.\<close>

definition spec_validateDateFolderName :: "string \<Rightarrow> string \<Rightarrow> js_error option" where
  "spec_validateDateFolderName msg s =
     (if length s = 10 \<and> list_all (radix_digit 10) (take 4 s @ take 2 (drop 5 s) @ drop 8 s)
           \<and> s ! 4 = CHR ''-'' \<and> s ! 7 = CHR ''-''
      then None
      else Some \<lparr>constructor = ValidationError, message = msg\<rparr>)"

section \<open>A small gallery\<close>

text \<open>The example of the spec: three date folders, the middle one without photos, and a
  pagination threshold of 1.\<close>

definition example_listing :: listing where
  "example_listing =
     [(\<lparr>folder_date = ''2023-01-01'', momentDate = 1672531200000\<rparr>, [''b.jpg'', ''a.jpg'']),
      (\<lparr>folder_date = ''2023-01-02'', momentDate = 1672617600000\<rparr>, []),
      (\<lparr>folder_date = ''2023-01-03'', momentDate = 1672704000000\<rparr>, [''c.jpg''])]"

definition example_permitted :: "char \<Rightarrow> bool" where
  "example_permitted c = (radix_digit 36 c \<or> c \<in> {CHR ''.'', CHR ''_'', CHR ''-''})"

definition example_thumbnailer :: "string \<Rightarrow> string \<Rightarrow> js_error + stream" where
  "example_thumbnailer dateKey name =
     (if name = ''c.jpg'' then Inr ''thumbnail of c.jpg''
      else if name = ''notes.txt'' then
        Inl \<lparr>constructor = ThumbnailError, message = ''Not a JPEG file''\<rparr>
      else Inl \<lparr>constructor = ThumbnailError, message = ''Unable to open file (No such file)''\<rparr>)"

definition example_deps :: deps where
  "example_deps =
     \<lparr>validateNumber = spec_validateNumber ''Invalid number'',
      validateDateFolderName = spec_validateDateFolderName ''Invalid date folder'',
      validatePhotoFilename = spec_validatePhotoFilename example_permitted ''Invalid filename'',
      getPictures = Inr (spec_getPictures example_listing),
      getPaginatedDatesWithPictures = Inr (spec_getPaginatedDatesWithPictures 1 example_listing),
      getPicture = (\<lambda>dateKey name. Inr (spec_getPicture example_listing dateKey name)),
      thumbnailer = example_thumbnailer,
      momentFormat = (\<lambda>t. if t = 1672704000000 then ''2023-01-03'' else ''2023-01-01''),
      pathPrefix = ''/gallery''\<rparr>"

definition example_request :: request where
  "example_request = \<lparr>protocol = ''https'', host = ''photos.example.org''\<rparr>"

section \<open>Decimal parameters\<close>

text \<open>On a non-empty string of decimal digits \<^verbatim>\<open>parseInt\<close> finds no white space, no
  sign and no \<^verbatim>\<open>0x\<close>, and reads the whole string in radix 10.\<close>

lemma radix_digit_10_iff:
  "radix_digit 10 c \<longleftrightarrow> 48 \<le> (of_char c :: nat) \<and> (of_char c :: nat) \<le> 57"
  by (auto simp: radix_digit_def digit_value_def Let_def)

lemma radix_digit_10_not_special:
  assumes "radix_digit 10 c"
  shows "\<not> is_js_whitespace c" and "c \<noteq> CHR ''-''" and "c \<noteq> CHR ''+''"
    and "c \<noteq> CHR ''x''" and "c \<noteq> CHR ''X''"
  using assms by (auto simp: radix_digit_10_iff is_js_whitespace_def)

lemma parseInt_string_decimal:
  assumes "is_decimal s"
  shows "parseInt_string s = Finite (int (radix_value 10 s))"
proof -
  from assms obtain c r where s: "s = c # r" and c: "radix_digit 10 c"
    and r: "list_all (radix_digit 10) r"
    by (cases s) (auto simp: is_decimal_def)
  have "\<forall>x \<in> set s. radix_digit 10 x"
    using c r s by (simp add: list_all_iff)
  then have tw: "takeWhile (radix_digit 10) s = s"
    by (simp add: takeWhile_eq_all_conv)
  have dw: "dropWhile is_js_whitespace s = s"
    using radix_digit_10_not_special(1)[OF c] by (simp add: s)
  have sign: "(case s of [] \<Rightarrow> (1 :: int, s)
               | c # r \<Rightarrow>
                   if c = CHR ''-'' then (- 1, r)
                   else if c = CHR ''+'' then (1, r)
                   else (1, s)) = (1, s)"
    using radix_digit_10_not_special(2,3)[OF c] by (simp add: s)
  have nohex: "(case s of a # b # t \<Rightarrow>
                   if a = CHR ''0'' \<and> (b = CHR ''x'' \<or> b = CHR ''X'') then (16 :: nat, t)
                   else (10, s)
               | _ \<Rightarrow> (10, s)) = (10, s)"
    using r s radix_digit_10_not_special(4,5) by (cases r) (auto simp: s)
  have ne: "s \<noteq> []"
    by (simp add: s)
  show ?thesis
    by (simp add: parseInt_string_def dw sign nohex tw ne Let_def)
qed

lemma parseInt_decimal:
  "is_decimal s \<Longrightarrow> parseInt (defaultValue (Some (JSString s)) fallback) = Finite (int (radix_value 10 s))"
  by (simp add: parseInt_def defaultValue_def parseInt_string_decimal)

lemma parseInt_default_3: "parseInt (defaultValue None (JSNumber (Finite 3))) = Finite 3"
  by code_simp

lemma parseInt_default_1: "parseInt (defaultValue None (JSNumber (Finite 1))) = Finite 1"
  by code_simp

lemma slice_from_0: "slice xs (Finite 0) (Finite (int n)) = take n xs"
  by (auto simp: slice_def ToIntegerOrInfinity_def Let_def min_def)

lemma latest_selected_absent: "latest_selected None pictures = take 3 pictures"
  using slice_from_0[of pictures 3] by (simp add: latest_selected_def parseInt_default_3)

lemma latest_selected_decimal:
  "is_decimal s \<Longrightarrow> latest_selected (Some s) pictures = take (radix_value 10 s) pictures"
  by (simp add: latest_selected_def parseInt_decimal slice_from_0)

lemma is_decimal_1: "is_decimal ''1''" and value_1: "radix_value 10 ''1'' = 1"
  by code_simp+


section \<open>The recent photos\<close>

text \<open>
  C9. When the photo manager resolves with \<open>pictures\<close>, a request to \<^verbatim>\<open>/latest\<close> with no
  \<^verbatim>\<open>amount\<close> answers with the first three of them, and a request whose \<^verbatim>\<open>amount\<close> is a
  decimal that the validator lets through answers with the first \<^verbatim>\<open>amount\<close> of them.
  The answer has min(amount, number of pictures) entries; an amount of at least the
  number of pictures gives all of them, and no error. The pictures come in the photo
  manager's order, the most recent first.
\<close>

theorem latest_length:
  assumes "getPictures d = Inr pictures"
  shows "latest_route d None =
           (Response 200 (Json (map (latest_entry d) (take 3 pictures))), [GetPictures])
       \<and> length (latest_selected None pictures) = min 3 (length pictures)
       \<and> (is_decimal s \<and> validateNumber d s = None \<longrightarrow>
            latest_route d (Some s) =
              (Response 200 (Json (map (latest_entry d) (take (radix_value 10 s) pictures))),
               [GetPictures])
          \<and> length (latest_selected (Some s) pictures) = min (radix_value 10 s) (length pictures)
          \<and> (length pictures \<le> radix_value 10 s \<longrightarrow> latest_selected (Some s) pictures = pictures))"
  using assms
  by (simp add: latest_route_def latest_try_def latest_then_def latest_selected_absent
      latest_selected_decimal min.commute)

theorem latest_length_witness:
  "getPictures example_deps = Inr (spec_getPictures example_listing)
   \<and> length (spec_getPictures example_listing) = 3
   \<and> is_decimal ''2'' \<and> validateNumber example_deps ''2'' = None
   \<and> is_decimal ''5'' \<and> validateNumber example_deps ''5'' = None
   \<and> latest_route example_deps None =
       (Response 200
          (Json (map (latest_entry example_deps) (take 3 (spec_getPictures example_listing)))),
        [GetPictures])
   \<and> latest_route example_deps (Some ''2'') =
       (Response 200
          (Json (map (latest_entry example_deps) (take 2 (spec_getPictures example_listing)))),
        [GetPictures])
   \<and> length (latest_selected (Some ''2'') (spec_getPictures example_listing)) = 2
   \<and> latest_selected (Some ''5'') (spec_getPictures example_listing) =
       spec_getPictures example_listing"
proof -
  have h: "getPictures example_deps = Inr (spec_getPictures example_listing)"
    by (simp add: example_deps_def)
  have a: "is_decimal ''2''" "is_decimal ''5''"
    by code_simp+
  have b: "validateNumber example_deps ''2'' = None" "validateNumber example_deps ''5'' = None"
    by (simp_all add: example_deps_def spec_validateNumber_def a)
  have v: "radix_value 10 ''2'' = 2" "radix_value 10 ''5'' = 5"
    by code_simp+
  have n: "length (spec_getPictures example_listing) = 3"
    by code_simp
  show ?thesis
    using latest_length[OF h, of "''2''"] latest_length[OF h, of "''5''"] h a b v n by simp
qed

text \<open>
  C10. For every list of pictures and every \<^verbatim>\<open>amount\<close> that is absent, or a string of
  decimal digits that the number validator lets through, the older handler (the raw
  parameter as the bound of \<^verbatim>\<open>slice\<close>) and the newer one (\<^verbatim>\<open>parseInt\<close> after the
  validation) select the same pictures; their answers are that selection under each
  handler's own rendering of an entry.
\<close>

theorem latest_old_new:
  assumes "amount = None \<or> (\<exists>s. amount = Some s \<and> is_decimal s \<and> validateNumber d s = None)"
  shows "latest_selected_old amount pictures = Some (latest_selected amount pictures)
       \<and> (getPictures d = Inr pictures \<longrightarrow>
            latest_route d amount =
              (Response 200 (Json (map (latest_entry d) (latest_selected amount pictures))),
               [GetPictures])
          \<and> latest_route_old d amount =
              (Some (Response 200 (Json (map (latest_entry_old d) (latest_selected amount pictures)))),
               [GetPictures]))"
proof -
  have sel: "latest_selected_old amount pictures = Some (latest_selected amount pictures)"
    using assms
  proof
    assume "amount = None"
    then show ?thesis
      by (simp add: latest_selected_old_def latest_selected_absent ToNumber_def defaultValue_def
          slice_from_0[of pictures 3, simplified])
  next
    assume "\<exists>s. amount = Some s \<and> is_decimal s \<and> validateNumber d s = None"
    then show ?thesis
      by (auto simp: latest_selected_old_def latest_selected_decimal ToNumber_def defaultValue_def
          StringToNumber_def slice_from_0)
  qed
  have "latest_try d amount = (getPictures d, [GetPictures])"
    using assms by (auto simp: latest_try_def)
  then show ?thesis
    using sel by (simp add: latest_route_def latest_then_def latest_route_old_def)
qed

theorem latest_old_new_witness:
  "is_decimal ''2'' \<and> validateNumber example_deps ''2'' = None
   \<and> latest_selected_old (Some ''2'') (spec_getPictures example_listing) =
       Some (latest_selected (Some ''2'') (spec_getPictures example_listing))
   \<and> latest_selected (Some ''2'') (spec_getPictures example_listing) =
       take 2 (spec_getPictures example_listing)"
proof -
  have a: "is_decimal ''2''"
    by code_simp
  have b: "validateNumber example_deps ''2'' = None"
    by (simp add: example_deps_def spec_validateNumber_def a)
  have v: "radix_value 10 ''2'' = 2"
    by code_simp
  have "Some ''2'' = None \<or> (\<exists>s. Some ''2'' = Some s \<and> is_decimal s \<and> validateNumber example_deps s = None)"
    using a b by simp
  from latest_old_new[OF this, of "spec_getPictures example_listing"] show ?thesis
    using a b v by (simp add: latest_selected_decimal)
qed

section \<open>The paginated index\<close>

text \<open>
  C7. When the photo manager resolves with the pages \<open>dates\<close>, a request to \<^verbatim>\<open>/:page?\<close>
  with no page renders the first page (the most recent one), as the request for page 1
  does; with no pages at all it is answered with the 404 response. A decimal page that
  the validator lets through renders that page when it is from 1 to the number of pages,
  and is answered with the 404 response when it is not. A parameter on which the
  validator throws a ValidationError is answered with the 404 response before the photo
  manager is called. None of these requests ends in a reported error.
\<close>

theorem index_page_range:
  assumes "getPaginatedDatesWithPictures d = Inr dates"
  shows "index_route d None =
           (if dates = [] then not_found
            else Response 200 (RenderIndex (Some (dates ! 0)) (Finite 1) (length dates)),
            [GetPaginatedDatesWithPictures])
       \<and> (validateNumber d ''1'' = None \<longrightarrow> index_route d None = index_route d (Some ''1''))
       \<and> (is_decimal s \<and> validateNumber d s = None
            \<and> 1 \<le> radix_value 10 s \<and> radix_value 10 s \<le> length dates \<longrightarrow>
            index_route d (Some s) =
              (Response 200
                 (RenderIndex (Some (dates ! (radix_value 10 s - 1)))
                    (Finite (int (radix_value 10 s))) (length dates)),
               [GetPaginatedDatesWithPictures]))
       \<and> (is_decimal s \<and> validateNumber d s = None
            \<and> \<not> (1 \<le> radix_value 10 s \<and> radix_value 10 s \<le> length dates) \<longrightarrow>
            index_route d (Some s) = (not_found, [GetPaginatedDatesWithPictures]))
       \<and> (validateNumber d s = Some e \<and> constructor e = ValidationError \<longrightarrow>
            index_route d (Some s) = (not_found, []))"
proof -
  have try_accepted: "index_try d (Some t) = (Inr dates, [GetPaginatedDatesWithPictures])"
    if "validateNumber d t = None" for t
    using that assms by (simp add: index_try_def)
  have try_none: "index_try d None = (Inr dates, [GetPaginatedDatesWithPictures])"
    using assms by (simp add: index_try_def)
  have then_decimal: "index_then (Some t) dates =
      (if int (radix_value 10 t) - 1 < 0 \<or> int (length dates) - 1 < int (radix_value 10 t) - 1
       then not_found
       else Response 200
              (RenderIndex (js_index dates (Finite (int (radix_value 10 t) - 1)))
                 (Finite (int (radix_value 10 t))) (length dates)))"
    if "is_decimal t" for t
    using that by (simp add: index_then_def parseInt_decimal js_add_def js_less_def Let_def)
  have then_none: "index_then None dates = index_then (Some ''1'') dates"
    by (simp add: index_then_def parseInt_default_1 parseInt_decimal is_decimal_1 value_1)
  have first: "index_route d None =
      (if dates = [] then not_found
       else Response 200 (RenderIndex (Some (dates ! 0)) (Finite 1) (length dates)),
       [GetPaginatedDatesWithPictures])"
    by (simp add: index_route_def try_none then_none then_decimal is_decimal_1 value_1 js_index_def)
  have absent: "index_route d None = index_route d (Some ''1'')" if "validateNumber d ''1'' = None"
    using that by (simp add: index_route_def try_none try_accepted then_none)
  have inside: "index_route d (Some s) =
      (Response 200
         (RenderIndex (Some (dates ! (radix_value 10 s - 1)))
            (Finite (int (radix_value 10 s))) (length dates)),
       [GetPaginatedDatesWithPictures])"
    if "is_decimal s" and "validateNumber d s = None"
      and "1 \<le> radix_value 10 s" and "radix_value 10 s \<le> length dates"
  proof -
    have "nat (int (radix_value 10 s) - 1) = radix_value 10 s - 1"
      by simp
    then show ?thesis
      using that
      by (simp add: index_route_def try_accepted then_decimal js_index_def)
  qed
  have outside: "index_route d (Some s) = (not_found, [GetPaginatedDatesWithPictures])"
    if "is_decimal s" and "validateNumber d s = None"
      and "\<not> (1 \<le> radix_value 10 s \<and> radix_value 10 s \<le> length dates)"
    using that by (auto simp: index_route_def try_accepted then_decimal)
  have malformed: "index_route d (Some s) = (not_found, [])"
    if "validateNumber d s = Some e" and "constructor e = ValidationError"
    using that by (simp add: index_route_def index_try_def error_middleware_def)
  show ?thesis
    using first absent inside outside malformed by blast
qed

theorem index_page_range_witness:
  "getPaginatedDatesWithPictures example_deps =
       Inr (spec_getPaginatedDatesWithPictures 1 example_listing)
   \<and> length (spec_getPaginatedDatesWithPictures 1 example_listing) = 2
   \<and> validateNumber example_deps ''1'' = None
   \<and> index_route example_deps None = index_route example_deps (Some ''1'')
   \<and> index_route example_deps None =
       (Response 200
          (RenderIndex (Some (spec_getPaginatedDatesWithPictures 1 example_listing ! 0))
             (Finite 1) 2),
        [GetPaginatedDatesWithPictures])
   \<and> is_decimal ''3'' \<and> validateNumber example_deps ''3'' = None
   \<and> index_route example_deps (Some ''3'') = (not_found, [GetPaginatedDatesWithPictures])
   \<and> index_route example_deps (Some ''0'') = (not_found, [GetPaginatedDatesWithPictures])
   \<and> validateNumber example_deps ''-1'' =
       Some \<lparr>constructor = ValidationError, message = ''Invalid number''\<rparr>
   \<and> index_route example_deps (Some ''-1'') = (not_found, [])
   \<and> index_route example_deps (Some ''2'') =
       (Response 200
          (RenderIndex (Some (spec_getPaginatedDatesWithPictures 1 example_listing ! 1))
             (Finite 2) 2),
        [GetPaginatedDatesWithPictures])"
proof -
  have g: "getPaginatedDatesWithPictures example_deps =
      Inr (spec_getPaginatedDatesWithPictures 1 example_listing)"
    by (simp add: example_deps_def)
  have len: "length (spec_getPaginatedDatesWithPictures 1 example_listing) = 2"
    by code_simp
  then have ne: "spec_getPaginatedDatesWithPictures 1 example_listing \<noteq> []"
    by auto
  have dec: "is_decimal ''3''" "is_decimal ''0''" "is_decimal ''2''"
    by code_simp+
  have val: "radix_value 10 ''3'' = 3" "radix_value 10 ''0'' = 0" "radix_value 10 ''2'' = 2"
    by code_simp+
  have acc: "validateNumber example_deps ''1'' = None" "validateNumber example_deps ''3'' = None"
    "validateNumber example_deps ''0'' = None" "validateNumber example_deps ''2'' = None"
    by code_simp+
  have rej: "validateNumber example_deps ''-1'' =
      Some \<lparr>constructor = ValidationError, message = ''Invalid number''\<rparr>"
    by code_simp
  show ?thesis
    using index_page_range[OF g, of "''3''"] index_page_range[OF g, of "''0''"]
      index_page_range[OF g, of "''2''"]
      index_page_range[OF g, of "''-1''" "\<lparr>constructor = ValidationError, message = ''Invalid number''\<rparr>"]
      g len ne dec val acc rej
    by simp
qed

section \<open>Validation\<close>

text \<open>
  C8. With the number validator as the spec describes it, a request to \<^verbatim>\<open>/latest\<close>
  whose \<^verbatim>\<open>amount\<close> is present and is not a string of decimal digits is rejected with the
  ValidationError before any call to the photo manager, and is answered with the 404
  response; a string of decimal digits passes and the photo manager is called. A
  parameter that \<^verbatim>\<open>parseInt\<close> reads as no number or as a negative number is never a
  string of decimal digits.
\<close>

theorem latest_amount_validation:
  assumes "validateNumber d = spec_validateNumber msg"
  shows "(\<not> is_decimal s \<longrightarrow>
            latest_try d (Some s) = (Inl \<lparr>constructor = ValidationError, message = msg\<rparr>, [])
          \<and> latest_route d (Some s) = (not_found, []))
       \<and> (is_decimal s \<longrightarrow> latest_try d (Some s) = (getPictures d, [GetPictures]))
       \<and> (parseInt_string s = NaN \<or> js_less (parseInt_string s) (Finite 0) \<longrightarrow> \<not> is_decimal s)"
proof -
  have "\<not> is_decimal s" if "parseInt_string s = NaN \<or> js_less (parseInt_string s) (Finite 0)"
    using that parseInt_string_decimal[of s] by (auto simp: js_less_def)
  then show ?thesis
    using assms
    by (auto simp: latest_try_def latest_route_def spec_validateNumber_def error_middleware_def)
qed

theorem latest_amount_validation_witness:
  "validateNumber example_deps = spec_validateNumber ''Invalid number''
   \<and> \<not> is_decimal ''-2'' \<and> \<not> is_decimal ''abc'' \<and> is_decimal ''2''
   \<and> js_less (parseInt_string ''-2'') (Finite 0) \<and> parseInt_string ''abc'' = NaN
   \<and> latest_route example_deps (Some ''-2'') = (not_found, [])
   \<and> latest_route example_deps (Some ''abc'') = (not_found, [])
   \<and> latest_try example_deps (Some ''2'') = (getPictures example_deps, [GetPictures])"
proof -
  have v: "validateNumber example_deps = spec_validateNumber ''Invalid number''"
    by (simp add: example_deps_def)
  have dec: "\<not> is_decimal ''-2''" "\<not> is_decimal ''abc''" "is_decimal ''2''"
    by code_simp+
  have p: "js_less (parseInt_string ''-2'') (Finite 0)" "parseInt_string ''abc'' = NaN"
    by code_simp+
  show ?thesis
    using latest_amount_validation[OF v, of "''-2''"] latest_amount_validation[OF v, of "''abc''"]
      latest_amount_validation[OF v, of "''2''"] v dec p
    by simp
qed

text \<open>
  C6. Whenever the first stage of a handler (\<^verbatim>\<open>/latest\<close>, \<^verbatim>\<open>/:page?\<close>,
  \<^verbatim>\<open>/view/:date/:filename\<close>, \<^verbatim>\<open>/thumbnails/:date/:filename\<close>) fails with an error that is
  a ValidationError, the request is answered with the 404 response: by the middleware,
  or already by the thumbnail handler's own \<^verbatim>\<open>catch\<close>.
\<close>

theorem validation_error_not_found:
  assumes "constructor e = ValidationError"
  shows "error_middleware e = not_found
       \<and> (fst (latest_try d amount) = Inl e \<longrightarrow> fst (latest_route d amount) = not_found)
       \<and> (fst (index_try d pageParam) = Inl e \<longrightarrow> fst (index_route d pageParam) = not_found)
       \<and> (fst (view_try d dateParam filenameParam) = Inl e \<longrightarrow>
            fst (view_route d req dateParam filenameParam) = not_found)
       \<and> (fst (thumbnails_try d dateParam filenameParam) = Inl e \<longrightarrow>
            fst (thumbnails_route d dateParam filenameParam) = not_found)"
  using assms
  by (auto simp: error_middleware_def latest_route_def index_route_def view_route_def
      thumbnails_route_def split: prod.splits)

theorem validation_error_not_found_witness:
  "constructor \<lparr>constructor = ValidationError, message = ''Invalid filename''\<rparr> = ValidationError
   \<and> fst (view_try example_deps ''2023-01-01'' ''../secret'') =
       Inl \<lparr>constructor = ValidationError, message = ''Invalid filename''\<rparr>
   \<and> fst (view_route example_deps example_request ''2023-01-01'' ''../secret'') = not_found
   \<and> fst (thumbnails_try example_deps ''2023-01-01'' ''../secret'') =
       Inl \<lparr>constructor = ValidationError, message = ''Invalid filename''\<rparr>
   \<and> fst (thumbnails_route example_deps ''2023-01-01'' ''../secret'') = not_found
   \<and> fst (latest_try example_deps (Some ''-2'')) =
       Inl \<lparr>constructor = ValidationError, message = ''Invalid number''\<rparr>
   \<and> fst (latest_route example_deps (Some ''-2'')) = not_found
   \<and> fst (index_try example_deps (Some ''first'')) =
       Inl \<lparr>constructor = ValidationError, message = ''Invalid number''\<rparr>
   \<and> fst (index_route example_deps (Some ''first'')) = not_found"
proof -
  have c: "constructor \<lparr>constructor = ValidationError, message = ''Invalid filename''\<rparr> = ValidationError"
    "constructor \<lparr>constructor = ValidationError, message = ''Invalid number''\<rparr> = ValidationError"
    by simp_all
  have t: "fst (view_try example_deps ''2023-01-01'' ''../secret'') =
      Inl \<lparr>constructor = ValidationError, message = ''Invalid filename''\<rparr>"
    "fst (thumbnails_try example_deps ''2023-01-01'' ''../secret'') =
      Inl \<lparr>constructor = ValidationError, message = ''Invalid filename''\<rparr>"
    "fst (latest_try example_deps (Some ''-2'')) =
      Inl \<lparr>constructor = ValidationError, message = ''Invalid number''\<rparr>"
    "fst (index_try example_deps (Some ''first'')) =
      Inl \<lparr>constructor = ValidationError, message = ''Invalid number''\<rparr>"
    by code_simp+
  show ?thesis
    using validation_error_not_found[OF c(1), of example_deps _ _ "''2023-01-01''" "''../secret''"
        example_request]
      validation_error_not_found[OF c(2), of example_deps "Some ''-2''" "Some ''first''"] t
    by simp
qed

text \<open>
  C5. When the date-folder validator or the filename validator throws on the parameters
  of a request to \<^verbatim>\<open>/view/:date/:filename\<close> or \<^verbatim>\<open>/thumbnails/:date/:filename\<close>, the
  handler fails with the validator's error and has made no call to the photo manager or
  to the thumbnailer. The filename validator as the spec describes it throws on every
  name with a \<^verbatim>\<open>..\<close> or a path separator in it, \<^verbatim>\<open>../secret\<close> among them.
\<close>

theorem validation_before_access:
  assumes "validateDateFolderName d dateParam \<noteq> None \<or> validatePhotoFilename d filenameParam \<noteq> None"
  shows "snd (view_route d req dateParam filenameParam) = []
       \<and> snd (thumbnails_route d dateParam filenameParam) = []
       \<and> (\<exists>e. view_try d dateParam filenameParam = (Inl e, [])
              \<and> thumbnails_try d dateParam filenameParam = (Inl e, [])
              \<and> (validateDateFolderName d dateParam = Some e
                  \<or> validateDateFolderName d dateParam = None
                    \<and> validatePhotoFilename d filenameParam = Some e))
       \<and> (sublist ''..'' f \<or> CHR ''/'' \<in> set f \<or> CHR 0x5C \<in> set f \<longrightarrow>
            spec_validatePhotoFilename permitted msg f \<noteq> None)"
  using assms
  by (auto simp: view_route_def view_try_def thumbnails_route_def thumbnails_try_def
      spec_validatePhotoFilename_def split: option.splits)

theorem validation_before_access_witness:
  "validatePhotoFilename example_deps ''../secret'' \<noteq> None
   \<and> sublist ''..'' ''../secret''
   \<and> snd (view_route example_deps example_request ''2023-01-01'' ''../secret'') = []
   \<and> snd (thumbnails_route example_deps ''2023-01-01'' ''../secret'') = []"
proof -
  have r: "validatePhotoFilename example_deps ''../secret'' \<noteq> None"
    by code_simp
  then have "validateDateFolderName example_deps ''2023-01-01'' \<noteq> None
      \<or> validatePhotoFilename example_deps ''../secret'' \<noteq> None"
    by simp
  moreover have "sublist ''..'' ''../secret''"
    by code_simp
  ultimately show ?thesis
    using validation_before_access[of example_deps "''2023-01-01''" "''../secret''" example_request] r
    by simp
qed

section \<open>Thumbnail failures\<close>

text \<open>
  C4. On a request to \<^verbatim>\<open>/thumbnails/:date/:filename\<close> with valid parameters whose
  thumbnailer rejects with \<open>err\<close>: when the message of \<open>err\<close> has the text
  \<^verbatim>\<open>Unable to open file\<close> (how the handler recognises an original that is missing or
  cannot be read) the answer is the 404 response; when it has not and \<open>err\<close> is a
  ThumbnailError (an original that cannot be decoded) the answer is the 500 response
  of the middleware.
\<close>

theorem thumbnail_failure_status:
  assumes "validateDateFolderName d dateParam = None"
    and "validatePhotoFilename d filenameParam = None"
    and "thumbnailer d dateParam filenameParam = Inl err"
  shows "(unable_to_open_file (message err) \<longrightarrow>
            thumbnails_route d dateParam filenameParam =
              (not_found, [Thumbnailer dateParam filenameParam]))
       \<and> (\<not> unable_to_open_file (message err) \<and> constructor err = ThumbnailError \<longrightarrow>
            thumbnails_route d dateParam filenameParam =
              (Response 500 (Send ''Failed to generate thumbnail - not an image file?''),
               [Thumbnailer dateParam filenameParam]))"
  using assms
  by (simp add: thumbnails_route_def thumbnails_try_def error_middleware_def)

theorem thumbnail_failure_status_witness:
  "validateDateFolderName example_deps ''2023-01-01'' = None
   \<and> validatePhotoFilename example_deps ''b.jpg'' = None
   \<and> validatePhotoFilename example_deps ''notes.txt'' = None
   \<and> thumbnailer example_deps ''2023-01-01'' ''b.jpg'' =
       Inl \<lparr>constructor = ThumbnailError, message = ''Unable to open file (No such file)''\<rparr>
   \<and> thumbnails_route example_deps ''2023-01-01'' ''b.jpg'' =
       (not_found, [Thumbnailer ''2023-01-01'' ''b.jpg''])
   \<and> thumbnailer example_deps ''2023-01-01'' ''notes.txt'' =
       Inl \<lparr>constructor = ThumbnailError, message = ''Not a JPEG file''\<rparr>
   \<and> thumbnails_route example_deps ''2023-01-01'' ''notes.txt'' =
       (Response 500 (Send ''Failed to generate thumbnail - not an image file?''),
        [Thumbnailer ''2023-01-01'' ''notes.txt''])"
proof -
  have vd: "validateDateFolderName example_deps ''2023-01-01'' = None"
    by code_simp
  have vf: "validatePhotoFilename example_deps ''b.jpg'' = None"
    "validatePhotoFilename example_deps ''notes.txt'' = None"
    by code_simp+
  have t1: "thumbnailer example_deps ''2023-01-01'' ''b.jpg'' =
      Inl \<lparr>constructor = ThumbnailError, message = ''Unable to open file (No such file)''\<rparr>"
    by code_simp
  have t2: "thumbnailer example_deps ''2023-01-01'' ''notes.txt'' =
      Inl \<lparr>constructor = ThumbnailError, message = ''Not a JPEG file''\<rparr>"
    by code_simp
  have m: "unable_to_open_file ''Unable to open file (No such file)''"
    "\<not> unable_to_open_file ''Not a JPEG file''"
    by code_simp+
  show ?thesis
    using thumbnail_failure_status[OF vd vf(1) t1] thumbnail_failure_status[OF vd vf(2) t2]
      vd vf t1 t2 m
    by simp
qed

section \<open>The catalog as the spec describes it\<close>

subsection \<open>Pages\<close>

lemma concat_chunk: "0 < n \<Longrightarrow> concat (chunk n xs) = xs"
proof (induction n xs rule: chunk.induct)
  case (1 n xs)
  show ?case
  proof (cases "xs = []")
    case True
    then show ?thesis by (simp add: chunk.simps)
  next
    case False
    with "1.prems" have "chunk n xs = take n xs # chunk n (drop n xs)"
      by (subst chunk.simps) simp
    moreover have "concat (chunk n (drop n xs)) = drop n xs"
      using "1.IH" "1.prems" False by simp
    ultimately show ?thesis by simp
  qed
qed

lemma chunk_page: "pg \<in> set (chunk n xs) \<Longrightarrow> pg \<noteq> [] \<and> length pg \<le> n \<and> set pg \<subseteq> set xs"
proof (induction n xs rule: chunk.induct)
  case (1 n xs)
  show ?case
  proof (cases "n = 0 \<or> xs = []")
    case True
    with "1.prems" show ?thesis by (simp add: chunk.simps)
  next
    case False
    then have eq: "chunk n xs = take n xs # chunk n (drop n xs)"
      by (subst chunk.simps) simp
    from "1.prems" eq consider "pg = take n xs" | "pg \<in> set (chunk n (drop n xs))"
      by auto
    then show ?thesis
    proof cases
      case 1
      with False show ?thesis by (auto dest: in_set_takeD)
    next
      case 2
      with "1.IH" False have "pg \<noteq> [] \<and> length pg \<le> n \<and> set pg \<subseteq> set (drop n xs)"
        by simp
      then show ?thesis by (auto dest: in_set_dropD)
    qed
  qed
qed

lemma dates_fst:
  "map fst (spec_datesWithPictures l) =
     map fst (rev (sort_key (\<lambda>e. momentDate (fst e)) (filter (\<lambda>e. snd e \<noteq> []) l)))"
  by (simp add: spec_datesWithPictures_def split_def)

lemma dates_folders:
  "set (map fst (spec_datesWithPictures l)) = {folder. \<exists>names. (folder, names) \<in> set l \<and> names \<noteq> []}"
  by (force simp: dates_fst)

lemma sort_eq_Nil: "sort_key f xs = [] \<longleftrightarrow> xs = []"
  using length_sort[of f xs] by (metis length_0_conv)

lemma dates_nonempty: "e \<in> set (spec_datesWithPictures l) \<Longrightarrow> snd e \<noteq> []"
  by (auto simp: spec_datesWithPictures_def sort_eq_Nil)

lemma dates_sorted:
  assumes "distinct (map (\<lambda>e. momentDate (fst e)) l)"
  shows "sorted_wrt (\<lambda>a b. momentDate (fst b) < momentDate (fst a)) (spec_datesWithPictures l)"
proof -
  let ?k = "\<lambda>e :: date_folder \<times> string list. momentDate (fst e)"
  let ?zs = "filter (\<lambda>e. snd e \<noteq> []) l"
  have "distinct (map ?k ?zs)"
    using assms by (rule distinct_map_filter)
  then have "distinct (map ?k (sort_key ?k ?zs))"
    by (simp add: distinct_map)
  then have "sorted_wrt (<) (map ?k (sort_key ?k ?zs))"
    by (simp add: strict_sorted_iff)
  then have "sorted_wrt (\<lambda>a b. ?k b < ?k a) (rev (sort_key ?k ?zs))"
    by (simp add: sorted_wrt_map sorted_wrt_rev)
  then show ?thesis
    by (simp add: spec_datesWithPictures_def sorted_wrt_map split_def)
qed

lemma distinct_map_inner: "distinct (map g (map f xs)) \<Longrightarrow> distinct (map f xs)"
  by (induction xs) auto

lemma dates_distinct:
  assumes "distinct (map (\<lambda>e. momentDate (fst e)) l)"
  shows "distinct (map fst (spec_datesWithPictures l))"
proof -
  have "distinct (map momentDate (map fst (spec_datesWithPictures l)))"
  proof -
    have "sorted_wrt (\<lambda>a b. b < a) (map (\<lambda>e. momentDate (fst e)) (spec_datesWithPictures l))"
      using dates_sorted[OF assms] by (simp add: sorted_wrt_map)
    then have "sorted_wrt (<) (rev (map (\<lambda>e. momentDate (fst e)) (spec_datesWithPictures l)))"
      by (simp add: sorted_wrt_rev)
    then have "distinct (rev (map (\<lambda>e. momentDate (fst e)) (spec_datesWithPictures l)))"
      using strict_sorted_iff by blast
    then show ?thesis by (simp add: comp_def)
  qed
  then show ?thesis by (rule distinct_map_inner)
qed

text \<open>
  C2. For a listing whose date folders have different dates and a pagination threshold
  above 0, the pages put one after the other in page order are the full list of the
  date folders that have at least one photo: each such folder once, no other folder, in
  strict order of date with the most recent first (page 1 is the most recent page, as in
  the spec's example). Every page has at least one and at most threshold folders, and no
  folder on a page is without photos.
\<close>

theorem pagination_pages:
  assumes "distinct (map (\<lambda>e. momentDate (fst e)) l)" and "0 < threshold"
  shows "concat (spec_getPaginatedDatesWithPictures threshold l) = spec_datesWithPictures l
       \<and> sorted_wrt (\<lambda>a b. momentDate (fst b) < momentDate (fst a))
            (concat (spec_getPaginatedDatesWithPictures threshold l))
       \<and> distinct (map fst (concat (spec_getPaginatedDatesWithPictures threshold l)))
       \<and> set (map fst (concat (spec_getPaginatedDatesWithPictures threshold l))) =
            {folder. \<exists>names. (folder, names) \<in> set l \<and> names \<noteq> []}
       \<and> (\<forall>pg \<in> set (spec_getPaginatedDatesWithPictures threshold l).
            pg \<noteq> [] \<and> length pg \<le> threshold \<and> (\<forall>e \<in> set pg. snd e \<noteq> []))"
proof -
  have c: "concat (spec_getPaginatedDatesWithPictures threshold l) = spec_datesWithPictures l"
    using assms(2) by (simp add: spec_getPaginatedDatesWithPictures_def concat_chunk)
  have pages: "pg \<noteq> [] \<and> length pg \<le> threshold \<and> (\<forall>e \<in> set pg. snd e \<noteq> [])"
    if "pg \<in> set (spec_getPaginatedDatesWithPictures threshold l)" for pg
    using chunk_page[of pg threshold "spec_datesWithPictures l"] that dates_nonempty
    by (auto simp: spec_getPaginatedDatesWithPictures_def)
  show ?thesis
    unfolding c
    using dates_sorted[OF assms(1)] dates_distinct[OF assms(1)] dates_folders[of l] pages
    by blast
qed

theorem pagination_pages_witness:
  "distinct (map (\<lambda>e. momentDate (fst e)) example_listing) \<and> (0 :: nat) < 1
   \<and> map (map (\<lambda>e. folder_date (fst e))) (spec_getPaginatedDatesWithPictures 1 example_listing) =
       [[''2023-01-03''], [''2023-01-01'']]
   \<and> concat (spec_getPaginatedDatesWithPictures 1 example_listing) =
       spec_datesWithPictures example_listing
   \<and> sorted_wrt (\<lambda>a b. momentDate (fst b) < momentDate (fst a))
        (concat (spec_getPaginatedDatesWithPictures 1 example_listing))
   \<and> distinct (map fst (concat (spec_getPaginatedDatesWithPictures 1 example_listing)))
   \<and> \<lparr>folder_date = ''2023-01-02'', momentDate = 1672617600000\<rparr>
       \<notin> set (map fst (concat (spec_getPaginatedDatesWithPictures 1 example_listing)))"
proof -
  have h: "distinct (map (\<lambda>e. momentDate (fst e)) example_listing)"
    by code_simp
  have pos: "(0 :: nat) < 1"
    by simp
  have pages: "map (map (\<lambda>e. folder_date (fst e))) (spec_getPaginatedDatesWithPictures 1 example_listing) =
      [[''2023-01-03''], [''2023-01-01'']]"
    by code_simp
  have empty: "\<lparr>folder_date = ''2023-01-02'', momentDate = 1672617600000\<rparr>
      \<notin> {folder. \<exists>names. (folder, names) \<in> set example_listing \<and> names \<noteq> []}"
    by (simp add: example_listing_def)
  note t = pagination_pages[OF h pos]
  have c: "concat (spec_getPaginatedDatesWithPictures 1 example_listing) =
      spec_datesWithPictures example_listing"
    using t by blast
  have s: "sorted_wrt (\<lambda>a b. momentDate (fst b) < momentDate (fst a))
      (concat (spec_getPaginatedDatesWithPictures 1 example_listing))"
    using t by blast
  have d: "distinct (map fst (concat (spec_getPaginatedDatesWithPictures 1 example_listing)))"
    using t by blast
  have f: "set (map fst (concat (spec_getPaginatedDatesWithPictures 1 example_listing))) =
      {folder. \<exists>names. (folder, names) \<in> set example_listing \<and> names \<noteq> []}"
    using t by blast
  have n: "\<lparr>folder_date = ''2023-01-02'', momentDate = 1672617600000\<rparr>
      \<notin> set (map fst (concat (spec_getPaginatedDatesWithPictures 1 example_listing)))"
    unfolding f by (rule empty)
  show ?thesis
    using h pos pages c s d n by blast
qed

subsection \<open>A photo and its neighbours\<close>

lemma with_neighbours_absent:
  "\<forall>x \<in> set xs. \<not> wanted x \<Longrightarrow> with_neighbours prev xs wanted = None"
  by (induction xs arbitrary: prev) auto

lemma with_neighbours_found:
  assumes "\<forall>x \<in> set xs. \<not> wanted x" and "wanted p"
  shows "with_neighbours prev (xs @ p # ys) wanted =
           Some \<lparr>date = date p, filename = filename p,
                 previous = (if xs = [] then prev else Some (last xs)),
                 next = (if ys = [] then None else Some (hd ys))\<rparr>"
  using assms
proof (induction xs arbitrary: prev)
  case Nil
  then show ?case by (cases ys) auto
next
  case (Cons x xs)
  then show ?case by auto
qed

lemma sorted_wrt_concat_map:
  assumes "sorted_wrt Q xs"
    and "\<forall>x \<in> set xs. sorted_wrt R (f x)"
    and "\<forall>x \<in> set xs. \<forall>y \<in> set xs. Q x y \<longrightarrow> (\<forall>a \<in> set (f x). \<forall>b \<in> set (f y). R a b)"
  shows "sorted_wrt R (concat (map f xs))"
  using assms
proof (induction xs)
  case Nil
  then show ?case by simp
next
  case (Cons x xs)
  then have "sorted_wrt R (concat (map f xs))"
    by simp
  moreover have "\<forall>a \<in> set (f x). \<forall>b \<in> set (concat (map f xs)). R a b"
    using Cons.prems by auto
  ultimately show ?case
    using Cons.prems by (simp add: sorted_wrt_append)
qed

lemma chronological_set:
  "set (spec_chronological l) =
     {\<lparr>date = folder, filename = n\<rparr> | folder names n. (folder, names) \<in> set l \<and> n \<in> set names}"
  by (auto simp: spec_chronological_def)

lemma chronological_sorted:
  assumes "distinct (map (\<lambda>e. momentDate (fst e)) l)" and "\<forall>e \<in> set l. distinct (snd e)"
  shows "sorted_wrt chronologically_before (spec_chronological l)"
proof -
  let ?k = "\<lambda>e :: date_folder \<times> string list. momentDate (fst e)"
  let ?f = "\<lambda>(folder, names). map (\<lambda>n. \<lparr>date = folder, filename = n\<rparr>) (sort names)"
  have "distinct (map ?k (sort_key ?k l))"
    using assms(1) by (simp add: distinct_map)
  then have "sorted_wrt (<) (map ?k (sort_key ?k l))"
    by (simp add: strict_sorted_iff)
  then have folders: "sorted_wrt (\<lambda>a b. ?k a < ?k b) (sort_key ?k l)"
    by (simp add: sorted_wrt_map)
  have within: "sorted_wrt chronologically_before (?f e)" if "e \<in> set (sort_key ?k l)" for e
  proof -
    from that assms(2) have "distinct (snd e)"
      by simp
    then have "sorted_wrt (<) (sort (snd e))"
      by (simp add: strict_sorted_iff)
    then show ?thesis
      by (cases e) (simp add: sorted_wrt_map chronologically_before_def)
  qed
  have across: "\<forall>a \<in> set (?f x). \<forall>b \<in> set (?f y). chronologically_before a b"
    if "?k x < ?k y" for x y
    using that by (cases x; cases y) (auto simp: chronologically_before_def)
  show ?thesis
    unfolding spec_chronological_def
    by (rule sorted_wrt_concat_map[OF folders]) (use within across in blast)+
qed

lemma chronological_keys:
  assumes "distinct (map (\<lambda>e. momentDate (fst e)) l)" and "\<forall>e \<in> set l. distinct (snd e)"
    and "distinct (map (\<lambda>e. folder_date (fst e)) l)"
  shows "distinct (map (\<lambda>p. (folder_date (date p), filename p)) (spec_chronological l))"
proof -
  have folder: "date a = date b"
    if "a \<in> set (spec_chronological l)" and "b \<in> set (spec_chronological l)"
      and "folder_date (date a) = folder_date (date b)" for a b
  proof -
    from that(1,2) obtain na nb where "(date a, na) \<in> set l" and "(date b, nb) \<in> set l"
      by (auto simp: chronological_set)
    moreover have "inj_on (\<lambda>e. folder_date (fst e)) (set l)"
      using assms(3) by (simp add: distinct_map)
    ultimately have "(date a, na) = (date b, nb)"
      using that(3) inj_onD[of "\<lambda>e. folder_date (fst e)" "set l" "(date a, na)" "(date b, nb)"]
      by simp
    then show ?thesis by simp
  qed
  have "sorted_wrt (\<lambda>a b. (folder_date (date a), filename a) \<noteq> (folder_date (date b), filename b))
          (spec_chronological l)"
  proof (rule sorted_wrt_mono_rel[OF _ chronological_sorted[OF assms(1,2)]])
    fix a b
    assume "a \<in> set (spec_chronological l)" and "b \<in> set (spec_chronological l)"
      and "chronologically_before a b"
    then show "(folder_date (date a), filename a) \<noteq> (folder_date (date b), filename b)"
      using folder[of a b] by (auto simp: chronologically_before_def)
  qed
  then have "sorted_wrt (\<noteq>) (map (\<lambda>p. (folder_date (date p), filename p)) (spec_chronological l))"
    by (simp add: sorted_wrt_map)
  then show ?thesis
    by (simp add: distinct_conv_nth sorted_wrt_iff_nth_less) (metis nat_neq_iff)
qed

text \<open>
  C3. For a listing whose date folders have different dates and different names and
  whose folders list no file name twice, the photos in their one total order (by date
  folder, then by file name) are exactly the photos of the listing. A key that no photo
  has gives an absent result, and the handler of \<^verbatim>\<open>/view/:date/:filename\<close> then answers
  with the 404 response, not an error. A photo that stands between \<open>xs\<close> and \<open>ys\<close> in the
  order is found with the last of \<open>xs\<close> as \<open>previous\<close> and the first of \<open>ys\<close> as \<open>next\<close>,
  each absent when there is none: the first photo of the collection has no \<open>previous\<close>,
  the last no \<open>next\<close>.
\<close>

theorem photo_neighbours:
  assumes "distinct (map (\<lambda>e. momentDate (fst e)) l)"
    and "distinct (map (\<lambda>e. folder_date (fst e)) l)"
    and "\<forall>e \<in> set l. distinct (snd e)"
    and "getPicture d = (\<lambda>dateKey name. Inr (spec_getPicture l dateKey name))"
  shows "sorted_wrt chronologically_before (spec_chronological l)
       \<and> set (spec_chronological l) =
           {\<lparr>date = folder, filename = n\<rparr> | folder names n. (folder, names) \<in> set l \<and> n \<in> set names}
       \<and> ((\<forall>p \<in> set (spec_chronological l). \<not> (folder_date (date p) = dk \<and> filename p = fn)) \<longrightarrow>
            spec_getPicture l dk fn = None
          \<and> (validateDateFolderName d dk = None \<and> validatePhotoFilename d fn = None \<longrightarrow>
               view_route d req dk fn = (not_found, [GetPicture dk fn])))
       \<and> (spec_chronological l = xs @ p # ys \<longrightarrow>
            spec_getPicture l (folder_date (date p)) (filename p) =
              Some \<lparr>date = date p, filename = filename p,
                    previous = (if xs = [] then None else Some (last xs)),
                    next = (if ys = [] then None else Some (hd ys))\<rparr>)"
proof -
  have absent: "spec_getPicture l dk fn = None"
    if "\<forall>p \<in> set (spec_chronological l). \<not> (folder_date (date p) = dk \<and> filename p = fn)"
    using that by (simp add: spec_getPicture_def with_neighbours_absent)
  have route: "view_route d req dk fn = (not_found, [GetPicture dk fn])"
    if "spec_getPicture l dk fn = None" and "validateDateFolderName d dk = None"
      and "validatePhotoFilename d fn = None"
    using that assms(4) by (simp add: view_route_def view_try_def view_then_def)
  have found: "spec_getPicture l (folder_date (date p)) (filename p) =
      Some \<lparr>date = date p, filename = filename p,
            previous = (if xs = [] then None else Some (last xs)),
            next = (if ys = [] then None else Some (hd ys))\<rparr>"
    if split: "spec_chronological l = xs @ p # ys"
  proof -
    have "distinct (map (\<lambda>q. (folder_date (date q), filename q)) (xs @ p # ys))"
      using chronological_keys[OF assms(1,3,2)] split by simp
    then have "(folder_date (date p), filename p) \<notin> (\<lambda>q. (folder_date (date q), filename q)) ` set xs"
      by auto
    then have "\<forall>x \<in> set xs. \<not> (folder_date (date x) = folder_date (date p) \<and> filename x = filename p)"
      by (auto simp: image_iff)
    then show ?thesis
      unfolding spec_getPicture_def split
      by (rule with_neighbours_found) simp
  qed
  show ?thesis
    using chronological_sorted[OF assms(1,3)] chronological_set[of l] absent route found
    by blast
qed

theorem photo_neighbours_witness:
  "distinct (map (\<lambda>e. momentDate (fst e)) example_listing)
   \<and> distinct (map (\<lambda>e. folder_date (fst e)) example_listing)
   \<and> list_all (\<lambda>e. distinct (snd e)) example_listing
   \<and> map filename (spec_chronological example_listing) = [''a.jpg'', ''b.jpg'', ''c.jpg'']
   \<and> spec_getPicture example_listing ''2023-01-05'' ''b.jpg'' = None
   \<and> view_route example_deps example_request ''2023-01-05'' ''b.jpg'' =
       (not_found, [GetPicture ''2023-01-05'' ''b.jpg''])
   \<and> spec_getPicture example_listing ''2023-01-01'' ''b.jpg'' =
       Some \<lparr>date = \<lparr>folder_date = ''2023-01-01'', momentDate = 1672531200000\<rparr>,
             filename = ''b.jpg'',
             previous = Some \<lparr>date = \<lparr>folder_date = ''2023-01-01'', momentDate = 1672531200000\<rparr>,
                              filename = ''a.jpg''\<rparr>,
             next = Some \<lparr>date = \<lparr>folder_date = ''2023-01-03'', momentDate = 1672704000000\<rparr>,
                          filename = ''c.jpg''\<rparr>\<rparr>
   \<and> spec_getPicture example_listing ''2023-01-01'' ''a.jpg'' =
       Some \<lparr>date = \<lparr>folder_date = ''2023-01-01'', momentDate = 1672531200000\<rparr>,
             filename = ''a.jpg'',
             previous = None,
             next = Some \<lparr>date = \<lparr>folder_date = ''2023-01-01'', momentDate = 1672531200000\<rparr>,
                          filename = ''b.jpg''\<rparr>\<rparr>
   \<and> spec_getPicture example_listing ''2023-01-03'' ''c.jpg'' =
       Some \<lparr>date = \<lparr>folder_date = ''2023-01-03'', momentDate = 1672704000000\<rparr>,
             filename = ''c.jpg'',
             previous = Some \<lparr>date = \<lparr>folder_date = ''2023-01-01'', momentDate = 1672531200000\<rparr>,
                              filename = ''b.jpg''\<rparr>,
             next = None\<rparr>"
proof -
  let ?f1 = "\<lparr>folder_date = ''2023-01-01'', momentDate = 1672531200000\<rparr>"
  let ?f3 = "\<lparr>folder_date = ''2023-01-03'', momentDate = 1672704000000\<rparr>"
  let ?a = "\<lparr>date = ?f1, filename = ''a.jpg''\<rparr>"
  let ?b = "\<lparr>date = ?f1, filename = ''b.jpg''\<rparr>"
  let ?c = "\<lparr>date = ?f3, filename = ''c.jpg''\<rparr>"
  have h1: "distinct (map (\<lambda>e. momentDate (fst e)) example_listing)"
    by code_simp
  have h2: "distinct (map (\<lambda>e. folder_date (fst e)) example_listing)"
    by code_simp
  have h3': "list_all (\<lambda>e. distinct (snd e)) example_listing"
    by code_simp
  then have h3: "\<forall>e \<in> set example_listing. distinct (snd e)"
    by (simp add: list_all_iff)
  have h4: "getPicture example_deps =
      (\<lambda>dateKey name. Inr (spec_getPicture example_listing dateKey name))"
    by (simp add: example_deps_def)
  have order: "spec_chronological example_listing = [?a, ?b, ?c]"
    by code_simp
  have v: "validateDateFolderName example_deps ''2023-01-05'' = None"
    "validatePhotoFilename example_deps ''b.jpg'' = None"
    by code_simp+
  have none: "\<forall>p \<in> set (spec_chronological example_listing).
      \<not> (folder_date (date p) = ''2023-01-05'' \<and> filename p = ''b.jpg'')"
    by (simp add: order)
  have sb: "spec_chronological example_listing = [?a] @ ?b # [?c]"
    and sa: "spec_chronological example_listing = [] @ ?a # [?b, ?c]"
    and sc: "spec_chronological example_listing = [?a, ?b] @ ?c # []"
    by (simp_all add: order)
  note t = photo_neighbours[OF h1 h2 h3 h4]
  show ?thesis
    using t[of "''2023-01-05''" "''b.jpg''" example_request "[?a]" ?b "[?c]"]
      t[of "''2023-01-05''" "''b.jpg''" example_request "[]" ?a "[?b, ?c]"]
      t[of "''2023-01-05''" "''b.jpg''" example_request "[?a, ?b]" ?c "[]"]
      h1 h2 h3' v none sb sa sc order
    by simp
qed

end
